theory Spec2Isabelle
  imports
    Complex_Main
    "HOL-Library.Word"
    "HOL-Library.AList"
    "HOL-Library.Char_ord"
    "HOL-Library.List_Lexorder"
begin

section \<open>The voice-chat client (class AudioService)\<close>

text \<open>
  A shallow embedding of the class \<^verbatim>\<open>AudioService\<close>: its private fields are the first
  block of the record \<open>audio_service\<close>, every method and every socket listener is a
  function from the state to the new state and the list of effects it performed on the
  platform (messages written to the socket, callbacks invoked, connections closed, ...).

  Three kinds of platform object are shared by reference in the source and live in an
  explicit store, addressed by their index: media tracks, peer connections
  (\<^verbatim>\<open>RTCPeerConnection\<close>) and the interval timers of the window with the variables
  their callbacks close over. Strings are compared as JavaScript compares them, code
  unit by code unit; identifiers are taken to be ASCII.
\<close>

subsection \<open>Platform objects\<close>

record media_track =
  enabled :: bool
  ended :: bool

datatype sdp_type = Offer | Answer

record peer_connection =
  pc_peer :: string
  pc_closed :: bool
  pc_senders :: "nat list"
  pc_localDescription :: "sdp_type option"
  pc_remoteDescription :: "sdp_type option"
  pc_candidates :: "nat list"

text \<open>interface AudioUser; streams and tracks of remote users are references.\<close>

record audio_user =
  userId :: string
  username :: string
  stream :: "nat option"
  audioTrack :: "nat option"
  isSpeaking :: bool

text \<open>
  The socket: \<^verbatim>\<open>socket.id\<close> is undefined until the transport is connected and again after
  a disconnect; the listeners installed by \<^verbatim>\<open>setupSocketListeners\<close> close over the
  \<^verbatim>\<open>userId\<close> and \<^verbatim>\<open>username\<close> given to \<^verbatim>\<open>initialize\<close>.
\<close>

record socket_obj =
  sock_id :: "string option"
  sock_token :: string
  sock_userId :: string
  sock_username :: string

datatype message =
    JoinDiscussionMsg string
  | LeaveDiscussionMsg string
  | SpeakingMsg string bool
  | OfferMsg string
  | AnswerMsg string
  | IceCandidateMsg string nat

datatype effect =
    Emit message
  | SocketOpen string
  | SocketDisconnect
  | GetUserMedia
  | PcClose nat
  | TrackStop nat
  | AudioContextClose
  | GetByteFrequencyData
  | SetInterval nat nat
  | ClearInterval nat
  | ConnectedCb
  | ErrorCb string
  | UserJoinedCb string
  | UserLeftCb string
  | SpeakingChangeCb string bool
  | UnhandledRejection

text \<open>What \<^verbatim>\<open>getUserMedia\<close> and the construction of the audio graph may do.\<close>

datatype gum_outcome = GumRejected | GumStream "media_track list"

datatype ctx_outcome = CtxCtorThrows | CtxNodeThrows | CtxOk

datatype error = NotConnected

subsection \<open>The state\<close>

text \<open>
  The callbacks are functions of the presentation layer: the state records whether one
  is registered, an effect records each invocation. The fields after
  \<open>voiceActivityDetectionInterval\<close> are the store: \<open>tracks\<close> and \<open>pcs\<close> hold every
  object ever created, \<open>timers\<close> the active intervals, each with the variable
  \<^verbatim>\<open>lastSpeakingState\<close> of its callback.
\<close>

record audio_service =
  socket :: "socket_obj option"
  localStream :: "nat list option"
  peerConnections :: "(string \<times> nat) list"
  connected :: bool
  discussionId :: "string option"
  audioContext :: "unit option"
  audioAnalyser :: "unit option"
  users :: "(string \<times> audio_user) list"
  onSpeakingChangeCallback :: bool
  onUserJoinedCallback :: bool
  onUserLeftCallback :: bool
  onConnectedCallback :: bool
  onErrorCallback :: bool
  isMuted :: bool
  microphoneAccessGranted :: bool
  voiceActivityDetectionInterval :: "nat option"
  tracks :: "media_track list"
  pcs :: "peer_connection list"
  timers :: "(nat \<times> bool) list"
  next_timer :: nat

definition new_service :: audio_service where
  "new_service =
     \<lparr>socket = None, localStream = None, peerConnections = [], connected = False,
      discussionId = None, audioContext = None, audioAnalyser = None, users = [],
      onSpeakingChangeCallback = False, onUserJoinedCallback = False,
      onUserLeftCallback = False, onConnectedCallback = False, onErrorCallback = False,
      isMuted = False, microphoneAccessGranted = False,
      voiceActivityDetectionInterval = None,
      tracks = [], pcs = [], timers = [], next_timer = 0\<rparr>"

definition speakingThreshold :: real where
  "speakingThreshold = - 50"

definition vad_period_ms :: nat where
  "vad_period_ms = 200"

type_synonym action = "audio_service \<Rightarrow> audio_service \<times> effect list"

definition and_then :: "action \<Rightarrow> action \<Rightarrow> action" where
  "and_then f g s =
     (case f s of (s1, e1) \<Rightarrow> (case g s1 of (s2, e2) \<Rightarrow> (s2, e1 @ e2)))"

subsection \<open>Peer connections\<close>

definition cleanupPeerConnection :: "string \<Rightarrow> action" where
  "cleanupPeerConnection uid s =
     (case map_of (peerConnections s) uid of
        None \<Rightarrow> (s, [])
      | Some a \<Rightarrow>
          (s\<lparr>pcs := (pcs s)[a := (pcs s ! a)\<lparr>pc_closed := True\<rparr>],
             peerConnections := AList.delete uid (peerConnections s)\<rparr>,
           [PcClose a]))"

fun cleanup_keys :: "string list \<Rightarrow> action" where
  "cleanup_keys [] s = (s, [])"
| "cleanup_keys (k # ks) s = and_then (cleanupPeerConnection k) (cleanup_keys ks) s"

definition cleanupPeerConnections :: action where
  "cleanupPeerConnections s = cleanup_keys (map fst (peerConnections s)) s"

definition is_initiator :: "audio_service \<Rightarrow> string \<Rightarrow> bool" where
  "is_initiator s uid =
     (case socket s of
        None \<Rightarrow> False
      | Some sock \<Rightarrow>
          (case sock_id sock of None \<Rightarrow> False | Some sid \<Rightarrow> sid \<noteq> [] \<and> sid < uid))"

definition new_pc :: "audio_service \<Rightarrow> string \<Rightarrow> peer_connection" where
  "new_pc s uid =
     \<lparr>pc_peer = uid, pc_closed = False,
      pc_senders =
        (case localStream s of
           None \<Rightarrow> []
         | Some ts \<Rightarrow> if isMuted s then [] else ts),
      pc_localDescription = None, pc_remoteDescription = None, pc_candidates = []\<rparr>"

definition createPeerConnection :: "string \<Rightarrow> action" where
  "createPeerConnection uid s =
     (case cleanupPeerConnection uid s of
        (s1, e1) \<Rightarrow>
          let a = length (pcs s1);
              s2 = s1\<lparr>pcs := pcs s1 @ [new_pc s1 uid],
                      peerConnections := AList.update uid a (peerConnections s1)\<rparr>
          in if is_initiator s2 uid
             then (s2\<lparr>pcs := (pcs s2)[a := (pcs s2 ! a)\<lparr>pc_localDescription := Some Offer\<rparr>]\<rparr>,
                   e1 @ [Emit (OfferMsg uid)])
             else (s2, e1))"

subsection \<open>The local stream and the audio graph\<close>

fun stop_tracks :: "nat list \<Rightarrow> media_track list \<Rightarrow> media_track list" where
  "stop_tracks [] ts = ts"
| "stop_tracks (r # rs) ts = stop_tracks rs (ts[r := (ts ! r)\<lparr>ended := True\<rparr>])"

definition cleanupLocalStream :: action where
  "cleanupLocalStream s =
     (case (case localStream s of
              None \<Rightarrow> (s, [])
            | Some rs \<Rightarrow>
                (s\<lparr>tracks := stop_tracks rs (tracks s), localStream := None\<rparr>,
                 map TrackStop rs)) of
        (s1, e1) \<Rightarrow>
          (case audioContext s1 of
             None \<Rightarrow> (s1, e1)
           | Some _ \<Rightarrow>
               (s1\<lparr>audioContext := None, audioAnalyser := None\<rparr>,
                e1 @ [AudioContextClose])))"

definition setupAudioContext :: "ctx_outcome \<Rightarrow> audio_service \<Rightarrow> audio_service" where
  "setupAudioContext oc s =
     (case oc of
        CtxCtorThrows \<Rightarrow> s
      | CtxNodeThrows \<Rightarrow> s\<lparr>audioContext := Some ()\<rparr>
      | CtxOk \<Rightarrow> s\<lparr>audioContext := Some (), audioAnalyser := Some ()\<rparr>)"

subsection \<open>Voice-activity detection\<close>

text \<open>
  The numbers of the detector are JavaScript doubles. The model keeps the values that are
  not real numbers apart (\<^verbatim>\<open>0 / 0\<close> is NaN, \<^verbatim>\<open>Math.log10(0)\<close> is minus infinity) and
  computes the others over the reals; the frame is the content of the \<^verbatim>\<open>Uint8Array\<close>
  after \<^verbatim>\<open>getByteFrequencyData\<close>.
\<close>

datatype jsnum = NaN | NegInf | PosInf | Fin real

fun sum_loop :: "8 word list \<Rightarrow> nat \<Rightarrow> nat" where
  "sum_loop [] acc = acc"
| "sum_loop (b # bs) acc = sum_loop bs (acc + unat b)"

definition js_quot :: "nat \<Rightarrow> nat \<Rightarrow> jsnum" where
  "js_quot a b = (if b = 0 then (if a = 0 then NaN else PosInf) else Fin (real a / real b))"

fun js_div_pos :: "jsnum \<Rightarrow> real \<Rightarrow> jsnum" where
  "js_div_pos (Fin x) c = Fin (x / c)"
| "js_div_pos v c = v"

fun js_log10 :: "jsnum \<Rightarrow> jsnum" where
  "js_log10 (Fin x) = (if x < 0 then NaN else if x = 0 then NegInf else Fin (log 10 x))"
| "js_log10 PosInf = PosInf"
| "js_log10 v = NaN"

fun js_times_pos :: "real \<Rightarrow> jsnum \<Rightarrow> jsnum" where
  "js_times_pos c (Fin x) = Fin (c * x)"
| "js_times_pos c v = v"

fun js_gt :: "jsnum \<Rightarrow> real \<Rightarrow> bool" where
  "js_gt (Fin x) t = (x > t)"
| "js_gt PosInf t = True"
| "js_gt v t = False"

definition average :: "8 word list \<Rightarrow> jsnum" where
  "average frame = js_quot (sum_loop frame 0) (length frame)"

definition decibels :: "8 word list \<Rightarrow> jsnum" where
  "decibels frame = js_times_pos 20 (js_log10 (js_div_pos (average frame) 255))"

definition computeSpeaking :: "8 word list \<Rightarrow> bool" where
  "computeSpeaking frame = js_gt (decibels frame) speakingThreshold"

text \<open>
  The callback given to \<^verbatim>\<open>setInterval\<close>, with the variable \<^verbatim>\<open>lastSpeakingState\<close> it
  closes over as an argument and a result.
\<close>

definition vad_callback ::
  "bool \<Rightarrow> 8 word list \<Rightarrow> audio_service \<Rightarrow> bool \<times> audio_service \<times> effect list" where
  "vad_callback lss frame s =
     (case socket s of
        None \<Rightarrow> (lss, s, [])
      | Some sock \<Rightarrow>
          if audioAnalyser s = None \<or> isMuted s then (lss, s, [])
          else
            let sp = computeSpeaking frame in
            if sp = lss then (lss, s, [GetByteFrequencyData])
            else
              let e1 = GetByteFrequencyData #
                       (case discussionId s of
                          None \<Rightarrow> []
                        | Some d \<Rightarrow> if d = [] then [] else [Emit (SpeakingMsg d sp)])
              in (case sock_id sock of
                    None \<Rightarrow> (sp, s, e1)
                  | Some k \<Rightarrow>
                      (case map_of (users s) k of
                         None \<Rightarrow> (sp, s, e1)
                       | Some u \<Rightarrow>
                           (sp,
                            s\<lparr>users := AList.update k (u\<lparr>isSpeaking := sp\<rparr>) (users s)\<rparr>,
                            e1 @ (if onSpeakingChangeCallback s
                                  then [SpeakingChangeCb k sp] else [])))))"

definition vad_tick :: "nat \<Rightarrow> 8 word list \<Rightarrow> action" where
  "vad_tick h frame s =
     (case map_of (timers s) h of
        None \<Rightarrow> (s, [])
      | Some lss \<Rightarrow>
          (case vad_callback lss frame s of
             (lss', s1, e1) \<Rightarrow> (s1\<lparr>timers := AList.update h lss' (timers s1)\<rparr>, e1)))"

definition startVoiceActivityDetection :: action where
  "startVoiceActivityDetection s =
     (case audioAnalyser s of
        None \<Rightarrow> (s, [])
      | Some _ \<Rightarrow>
          (s\<lparr>timers := timers s @ [(next_timer s, False)],
             next_timer := Suc (next_timer s),
             voiceActivityDetectionInterval := Some (next_timer s)\<rparr>,
           [SetInterval (next_timer s) vad_period_ms]))"

definition stopVoiceActivityDetection :: action where
  "stopVoiceActivityDetection s =
     (case voiceActivityDetectionInterval s of
        None \<Rightarrow> (s, [])
      | Some h \<Rightarrow>
          (s\<lparr>timers := AList.delete h (timers s),
             voiceActivityDetectionInterval := None\<rparr>,
           [ClearInterval h]))"

subsection \<open>Joining and leaving\<close>

definition microphone_error :: string where
  "microphone_error = ''Could not access microphone. Please check your permissions.''"

definition joinDiscussion ::
  "string \<Rightarrow> gum_outcome \<Rightarrow> ctx_outcome \<Rightarrow> audio_service
     \<Rightarrow> error + (bool \<times> audio_service \<times> effect list)" where
  "joinDiscussion d gum ctx s =
     (if socket s = None \<or> \<not> connected s then Inl NotConnected
      else
        let s1 = s\<lparr>discussionId := Some d\<rparr> in
        (case gum of
           GumRejected \<Rightarrow>
             Inr (False, s1,
                  GetUserMedia # (if onErrorCallback s1 then [ErrorCb microphone_error] else []))
         | GumStream ts \<Rightarrow>
             let n = length (tracks s1);
                 s2 = s1\<lparr>tracks := tracks s1 @ ts, microphoneAccessGranted := True\<rparr>;
                 s3 = setupAudioContext ctx s2;
                 s4 = s3\<lparr>localStream := Some [n ..< n + length ts]\<rparr>
             in (case startVoiceActivityDetection s4 of
                   (s5, e5) \<Rightarrow>
                     Inr (True, s5, [GetUserMedia, Emit (JoinDiscussionMsg d)] @ e5))))"

definition leaveDiscussion :: action where
  "leaveDiscussion s =
     (case discussionId s of
        None \<Rightarrow> (s, [])
      | Some d \<Rightarrow>
          if socket s = None \<or> d = [] then (s, [])
          else
            (case stopVoiceActivityDetection s of
               (s1, e1) \<Rightarrow>
                 (case cleanupPeerConnections s1 of
                    (s2, e2) \<Rightarrow>
                      (case cleanupLocalStream s2 of
                         (s3, e3) \<Rightarrow>
                           (s3\<lparr>discussionId := None\<rparr>,
                            e1 @ [Emit (LeaveDiscussionMsg d)] @ e2 @ e3)))))"

subsection \<open>Mute\<close>

fun set_enabled :: "bool \<Rightarrow> nat list \<Rightarrow> media_track list \<Rightarrow> media_track list" where
  "set_enabled b [] ts = ts"
| "set_enabled b (r # rs) ts = set_enabled b rs (ts[r := (ts ! r)\<lparr>enabled := b\<rparr>])"

definition toggleMute :: "audio_service \<Rightarrow> bool \<times> audio_service" where
  "toggleMute s =
     (let s1 = s\<lparr>isMuted := \<not> isMuted s\<rparr>;
          s2 = (case localStream s1 of
                  None \<Rightarrow> s1
                | Some rs \<Rightarrow> s1\<lparr>tracks := set_enabled (\<not> isMuted s1) rs (tracks s1)\<rparr>)
      in (isMuted s2, s2))"

definition setMute :: "bool \<Rightarrow> audio_service \<Rightarrow> bool \<times> audio_service" where
  "setMute muted s = (if isMuted s \<noteq> muted then toggleMute s else (isMuted s, s))"

definition isMicrophoneAccessGranted :: "audio_service \<Rightarrow> bool" where
  "isMicrophoneAccessGranted s = microphoneAccessGranted s"

definition getUsers :: "audio_service \<Rightarrow> audio_user list" where
  "getUsers s = map snd (users s)"

subsection \<open>The socket and its listeners\<close>

text \<open>
  Each listener runs to completion: the promises it awaits (offer and answer creation,
  setting a description, adding a candidate) are taken to resolve at once and without
  error. A property key is taken to be an own property of \<^verbatim>\<open>peerConnections\<close>.
\<close>

definition on_connect :: action where
  "on_connect s =
     (case socket s of
        None \<Rightarrow> (s, [])
      | Some sock \<Rightarrow>
          (s\<lparr>connected := True,
             users := AList.update (sock_userId sock)
                        \<lparr>userId = sock_userId sock, username = sock_username sock,
                         stream = None, audioTrack = None, isSpeaking = False\<rparr>
                        (users s)\<rparr>,
           if onConnectedCallback s then [ConnectedCb] else []))"

definition on_disconnect :: action where
  "on_disconnect s = cleanupPeerConnections (s\<lparr>connected := False\<rparr>)"

definition on_user_joined :: "string \<Rightarrow> string \<Rightarrow> action" where
  "on_user_joined uid uname s =
     (let s1 = s\<lparr>users := AList.update uid
                              \<lparr>userId = uid, username = uname, stream = None,
                               audioTrack = None, isSpeaking = False\<rparr>
                              (users s)\<rparr>
      in (case createPeerConnection uid s1 of
            (s2, e2) \<Rightarrow> (s2, e2 @ (if onUserJoinedCallback s2 then [UserJoinedCb uid] else []))))"

definition on_user_left :: "string \<Rightarrow> action" where
  "on_user_left uid s =
     (case cleanupPeerConnection uid s of
        (s1, e1) \<Rightarrow>
          (s1\<lparr>users := AList.delete uid (users s1)\<rparr>,
           e1 @ (if onUserLeftCallback s1 \<and> map_of (users s1) uid \<noteq> None
                 then [UserLeftCb uid] else [])))"

definition on_offer :: "string \<Rightarrow> action" where
  "on_offer sender s =
     (case (if map_of (peerConnections s) sender = None
            then createPeerConnection sender s else (s, [])) of
        (s1, e1) \<Rightarrow>
          (case map_of (peerConnections s1) sender of
             None \<Rightarrow> (s1, e1 @ [UnhandledRejection])
           | Some a \<Rightarrow>
               (s1\<lparr>pcs := (pcs s1)[a := (pcs s1 ! a)\<lparr>pc_remoteDescription := Some Offer,
                                                   pc_localDescription := Some Answer\<rparr>]\<rparr>,
                e1 @ (if socket s1 = None then [] else [Emit (AnswerMsg sender)]))))"

definition on_answer :: "string \<Rightarrow> action" where
  "on_answer sender s =
     (case map_of (peerConnections s) sender of
        None \<Rightarrow> (s, [])
      | Some a \<Rightarrow>
          (s\<lparr>pcs := (pcs s)[a := (pcs s ! a)\<lparr>pc_remoteDescription := Some Answer\<rparr>]\<rparr>, []))"

definition on_ice_candidate :: "string \<Rightarrow> nat \<Rightarrow> action" where
  "on_ice_candidate sender c s =
     (case map_of (peerConnections s) sender of
        None \<Rightarrow> (s, [])
      | Some a \<Rightarrow>
          (s\<lparr>pcs := (pcs s)[a := (pcs s ! a)\<lparr>pc_candidates := pc_candidates (pcs s ! a) @ [c]\<rparr>]\<rparr>,
           []))"

definition on_speaking :: "string \<Rightarrow> bool \<Rightarrow> action" where
  "on_speaking uid b s =
     (case map_of (users s) uid of
        None \<Rightarrow> (s, [])
      | Some u \<Rightarrow>
          (s\<lparr>users := AList.update uid (u\<lparr>isSpeaking := b\<rparr>) (users s)\<rparr>,
           if onSpeakingChangeCallback s then [SpeakingChangeCb uid b] else []))"

definition on_error :: "string \<Rightarrow> action" where
  "on_error msg s = (s, if onErrorCallback s then [ErrorCb msg] else [])"

text \<open>The handlers of a peer connection close over the \<^verbatim>\<open>userId\<close> it was created for.\<close>

definition pc_ontrack :: "string \<Rightarrow> nat \<Rightarrow> nat \<Rightarrow> action" where
  "pc_ontrack uid st tr s =
     (case map_of (users s) uid of
        None \<Rightarrow> (s, [])
      | Some u \<Rightarrow>
          (s\<lparr>users := AList.update uid (u\<lparr>stream := Some st, audioTrack := Some tr\<rparr>) (users s)\<rparr>,
           []))"

definition pc_onicecandidate :: "string \<Rightarrow> nat option \<Rightarrow> action" where
  "pc_onicecandidate uid cand s =
     (case cand of
        None \<Rightarrow> (s, [])
      | Some c \<Rightarrow> (s, if socket s = None then [] else [Emit (IceCandidateMsg uid c)]))"

text \<open>
  \<^verbatim>\<open>socket.disconnect()\<close>: the socket.io client closes the transport, forgets the
  identifier and, when the socket was connected, runs the \<^verbatim>\<open>disconnect\<close> listener before
  it returns. The same happens when the transport is lost.
\<close>

definition transport_closed :: action where
  "transport_closed s =
     (case socket s of
        None \<Rightarrow> (s, [])
      | Some sock \<Rightarrow>
          if connected s then on_disconnect (s\<lparr>socket := Some (sock\<lparr>sock_id := None\<rparr>)\<rparr>)
          else (s, []))"

definition socket_disconnect :: action where
  "socket_disconnect s =
     (case transport_closed s of (s1, e1) \<Rightarrow> (s1, SocketDisconnect # e1))"

definition initialize :: "string \<Rightarrow> string \<Rightarrow> string \<Rightarrow> action" where
  "initialize token uid uname s =
     (case (if socket s = None then (s, []) else socket_disconnect s) of
        (s1, e1) \<Rightarrow>
          (s1\<lparr>socket := Some \<lparr>sock_id = None, sock_token = token,
                               sock_userId = uid, sock_username = uname\<rparr>\<rparr>,
           e1 @ [SocketOpen token]))"

definition cleanup :: action where
  "cleanup s =
     (case leaveDiscussion s of
        (s1, e1) \<Rightarrow>
          if socket s1 = None then (s1, e1)
          else (case socket_disconnect s1 of
                  (s2, e2) \<Rightarrow> (s2\<lparr>socket := None\<rparr>, e1 @ e2)))"

subsection \<open>Everything that can happen to a manager\<close>

datatype callback_kind = SpeakingChange | UserJoinedK | UserLeftK | ConnectedK | ErrorK

datatype event =
    Initialize string string string
  | Register callback_kind
  | SockConnect string
  | SockDisconnect
  | SockUserJoined string string
  | SockUserLeft string
  | SockOffer string
  | SockAnswer string
  | SockIceCandidate string nat
  | SockSpeaking string bool
  | SockError string
  | PcTrack nat nat nat
  | PcIceCandidate nat "nat option"
  | JoinDiscussion string gum_outcome ctx_outcome
  | LeaveDiscussion
  | ToggleMute
  | SetMute bool
  | Cleanup
  | TimerTick nat "8 word list"

definition register :: "callback_kind \<Rightarrow> audio_service \<Rightarrow> audio_service" where
  "register k s =
     (case k of
        SpeakingChange \<Rightarrow> s\<lparr>onSpeakingChangeCallback := True\<rparr>
      | UserJoinedK \<Rightarrow> s\<lparr>onUserJoinedCallback := True\<rparr>
      | UserLeftK \<Rightarrow> s\<lparr>onUserLeftCallback := True\<rparr>
      | ConnectedK \<Rightarrow> s\<lparr>onConnectedCallback := True\<rparr>
      | ErrorK \<Rightarrow> s\<lparr>onErrorCallback := True\<rparr>)"

text \<open>
  A socket event reaches its listener only when there is a socket; an event of a peer
  connection only while that connection is open. A call of \<^verbatim>\<open>joinDiscussion\<close> that
  throws leaves the state as it was.
\<close>

definition on_socket :: "action \<Rightarrow> action" where
  "on_socket f s = (if socket s = None then (s, []) else f s)"

definition on_pc :: "nat \<Rightarrow> (string \<Rightarrow> action) \<Rightarrow> action" where
  "on_pc a f s =
     (if a < length (pcs s) \<and> \<not> pc_closed (pcs s ! a) then f (pc_peer (pcs s ! a)) s
      else (s, []))"

fun step :: "event \<Rightarrow> action" where
  "step (Initialize token uid uname) s = initialize token uid uname s"
| "step (Register k) s = (register k s, [])"
| "step (SockConnect sid) s =
     (case socket s of
        None \<Rightarrow> (s, [])
      | Some sock \<Rightarrow> on_connect (s\<lparr>socket := Some (sock\<lparr>sock_id := Some sid\<rparr>)\<rparr>))"
| "step SockDisconnect s = transport_closed s"
| "step (SockUserJoined uid uname) s = on_socket (on_user_joined uid uname) s"
| "step (SockUserLeft uid) s = on_socket (on_user_left uid) s"
| "step (SockOffer sender) s = on_socket (on_offer sender) s"
| "step (SockAnswer sender) s = on_socket (on_answer sender) s"
| "step (SockIceCandidate sender c) s = on_socket (on_ice_candidate sender c) s"
| "step (SockSpeaking uid b) s = on_socket (on_speaking uid b) s"
| "step (SockError msg) s = on_socket (on_error msg) s"
| "step (PcTrack a st tr) s = on_pc a (\<lambda>uid. pc_ontrack uid st tr) s"
| "step (PcIceCandidate a cand) s = on_pc a (\<lambda>uid. pc_onicecandidate uid cand) s"
| "step (JoinDiscussion d gum ctx) s =
     (case joinDiscussion d gum ctx s of
        Inl err \<Rightarrow> (s, [])
      | Inr (ok, s1, e1) \<Rightarrow> (s1, e1))"
| "step LeaveDiscussion s = leaveDiscussion s"
| "step ToggleMute s = (snd (toggleMute s), [])"
| "step (SetMute b) s = (snd (setMute b s), [])"
| "step Cleanup s = cleanup s"
| "step (TimerTick h frame) s = vad_tick h frame s"

fun run :: "event list \<Rightarrow> action" where
  "run [] s = (s, [])"
| "run (ev # evs) s = and_then (step ev) (run evs) s"

section \<open>Notions used by the properties\<close>


definition connection_id :: "audio_service \<Rightarrow> string option" where
  "connection_id s = (case socket s of None \<Rightarrow> None | Some sock \<Rightarrow> sock_id sock)"

text \<open>A discussion is joined when the guard of \<^verbatim>\<open>leaveDiscussion\<close> lets the call through.\<close>

definition joined :: "audio_service \<Rightarrow> string \<Rightarrow> bool" where
  "joined s d = (socket s \<noteq> None \<and> discussionId s = Some d \<and> d \<noteq> [])"






definition sampling :: "audio_service \<Rightarrow> bool" where
  "sampling s = (socket s \<noteq> None \<and> audioAnalyser s \<noteq> None \<and> \<not> isMuted s)"

definition reports_to_coordinator :: "audio_service \<Rightarrow> bool" where
  "reports_to_coordinator s =
     (sampling s \<and> (case discussionId s of None \<Rightarrow> False | Some d \<Rightarrow> d \<noteq> []))"

definition reports_to_callback :: "audio_service \<Rightarrow> bool" where
  "reports_to_callback s =
     (sampling s \<and> onSpeakingChangeCallback s \<and>
      (case connection_id s of None \<Rightarrow> False | Some k \<Rightarrow> map_of (users s) k \<noteq> None))"

text \<open>
  The open peer connections of the store, by the identity each was created for, and the
  invariant that ties them to the link map: the map names open connections only, each
  under its own identity, and every open connection is named by the map.
\<close>

definition open_links :: "audio_service \<Rightarrow> string list" where
  "open_links s = map pc_peer (filter (\<lambda>p. \<not> pc_closed p) (pcs s))"

definition links_ok :: "(string \<times> nat) list \<Rightarrow> peer_connection list \<Rightarrow> bool" where
  "links_ok m ps =
     (distinct (map fst m) \<and>
      (\<forall>u a. map_of m u = Some a \<longrightarrow>
         a < length ps \<and> \<not> pc_closed (ps ! a) \<and> pc_peer (ps ! a) = u) \<and>
      (\<forall>a < length ps. \<not> pc_closed (ps ! a) \<longrightarrow> map_of m (pc_peer (ps ! a)) = Some a))"

definition links_inv :: "audio_service \<Rightarrow> bool" where
  "links_inv s = links_ok (peerConnections s) (pcs s)"

text \<open>The analyser exists only inside an audio context.\<close>

definition audio_inv :: "audio_service \<Rightarrow> bool" where
  "audio_inv s = (audioAnalyser s = None \<or> audioContext s \<noteq> None)"

subsection \<open>Example managers\<close>

definition mic :: media_track where
  "mic = \<lparr>enabled = True, ended = False\<rparr>"

definition alice_service :: audio_service where
  "alice_service =
     fst (run [Initialize ''tokenA'' ''64f1c0'' ''alice'', SockConnect ''3kPz''] new_service)"


definition loud_frame :: "8 word list" where
  "loud_frame = [200, 180, 90, 10]"



definition in_room_service :: audio_service where
  "in_room_service =
     fst (run [JoinDiscussion ''d1'' (GumStream [mic]) CtxOk, SockUserJoined ''5Qa_'' ''bob'']
            alice_service)"

definition in_room_events :: "event list" where
  "in_room_events =
     [Initialize ''tokenA'' ''64f1c0'' ''alice'', SockConnect ''3kPz'',
      JoinDiscussion ''d1'' (GumStream [mic]) CtxOk, SockUserJoined ''5Qa_'' ''bob'']"

definition muted_service :: audio_service where
  "muted_service = fst (run [ToggleMute] in_room_service)"

definition rejoined_service :: audio_service where
  "rejoined_service =
     fst (step (JoinDiscussion ''d2'' (GumStream [mic]) CtxOk) in_room_service)"

section \<open>The detector\<close>


lemma db_threshold:
  fixes x :: real
  assumes "0 < x"
  shows "(- 50 < 20 * log 10 x) = (1 < 100000 * x\<^sup>2)"
proof -
  have "(- 50 < 20 * log 10 x) = (- 5 < 2 * log 10 x)" by simp
  also have "2 * log 10 x = log 10 (x\<^sup>2)"
    using assms by (simp add: log_nat_power)
  also have "(- 5 < log 10 (x\<^sup>2)) = (10 powr (- 5) < x\<^sup>2)"
    using assms by (simp add: less_log_iff)
  also have "(10::real) powr (- 5) = 1 / 100000"
    by (simp add: powr_minus_divide)
  finally show ?thesis by (simp add: field_simps)
qed

lemma decibels_pos:
  assumes "frame \<noteq> []" and "sum_loop frame 0 \<noteq> 0"
  shows "decibels frame = Fin (20 * log 10 (real (sum_loop frame 0) / real (length frame) / 255))"
proof -
  let ?x = "real (sum_loop frame 0) / real (length frame) / 255"
  have "0 < ?x" using assms by simp
  then have "\<not> ?x < 0" and "?x \<noteq> 0" by linarith+
  then have "js_log10 (Fin ?x) = Fin (log 10 ?x)" by simp
  then show ?thesis using assms(1) by (simp add: decibels_def average_def js_quot_def)
qed

lemma computeSpeaking_unfold:
  "computeSpeaking frame =
     (frame \<noteq> [] \<and> sum_loop frame 0 \<noteq> 0 \<and>
      - 50 < 20 * log 10 (real (sum_loop frame 0) / real (length frame) / 255))"
proof (cases "frame = []")
  case True
  then show ?thesis
    by (simp add: computeSpeaking_def decibels_def average_def js_quot_def)
next
  case ne: False
  show ?thesis
  proof (cases "sum_loop frame 0 = 0")
    case True
    then show ?thesis using ne
      by (simp add: computeSpeaking_def decibels_def average_def js_quot_def)
  next
    case False
    then show ?thesis using ne
      by (simp only: computeSpeaking_def decibels_pos [OF ne False] js_gt.simps
          speakingThreshold_def not_False_eq_True simp_thms)
  qed
qed



lemma computeSpeaking_code [code]:
  "computeSpeaking frame =
     (frame \<noteq> [] \<and> (255 * length frame)\<^sup>2 < 100000 * (sum_loop frame 0)\<^sup>2)"
proof (cases "frame \<noteq> [] \<and> sum_loop frame 0 \<noteq> 0")
  case False
  then show ?thesis
    unfolding computeSpeaking_unfold by auto
next
  case True
  let ?n = "real (length frame)" and ?t = "real (sum_loop frame 0)"
  have n: "0 < ?n" and t: "0 < ?t" using True by simp_all
  then have pos: "0 < ?t / ?n / 255" by simp
  have "computeSpeaking frame = (- 50 < 20 * log 10 (?t / ?n / 255))"
    unfolding computeSpeaking_unfold using True by simp
  also have "\<dots> = (1 < 100000 * (?t / ?n / 255)\<^sup>2)"
    by (rule db_threshold [OF pos])
  also have "\<dots> = ((255 * ?n)\<^sup>2 < 100000 * ?t\<^sup>2)"
  proof -
    have "100000 * (?t / ?n / 255)\<^sup>2 = (100000 * ?t\<^sup>2) / (255 * ?n)\<^sup>2"
      by (simp add: power_divide power_mult_distrib)
    moreover have "0 < (255 * ?n)\<^sup>2" using n by simp
    ultimately show ?thesis by (simp only: less_divide_eq_1_pos)
  qed
  also have "\<dots> = (real ((255 * length frame)\<^sup>2) < real (100000 * (sum_loop frame 0)\<^sup>2))"
    by simp
  also have "\<dots> = ((255 * length frame)\<^sup>2 < 100000 * (sum_loop frame 0)\<^sup>2)"
    by (rule of_nat_less_iff)
  finally show ?thesis using True by simp
qed

text \<open>For the 256 bins of the analyser the threshold lies between two sums of bytes.\<close>

lemma computeSpeaking_256:
  assumes "length frame = 256"
  shows "computeSpeaking frame = (207 \<le> sum_loop frame 0)"
proof (cases "207 \<le> sum_loop frame 0")
  case True
  then have "207\<^sup>2 \<le> (sum_loop frame 0)\<^sup>2"
    by (rule power_mono) simp
  with True assms show ?thesis
    by (auto simp: computeSpeaking_code)
next
  case False
  then have "sum_loop frame 0 \<le> 206" by simp
  then have "(sum_loop frame 0)\<^sup>2 \<le> 206\<^sup>2"
    by (rule power_mono) simp
  with False assms show ?thesis
    by (auto simp: computeSpeaking_code)
qed

lemma startVoiceActivityDetection_effects:
  "snd (startVoiceActivityDetection s) =
     (if audioAnalyser s = None then [] else [SetInterval (next_timer s) 200])"
  by (simp add: startVoiceActivityDetection_def vad_period_ms_def split: option.splits)


section \<open>Who initiates\<close>

lemma cleanupPeerConnection_effects:
  "snd (cleanupPeerConnection uid s) =
     (case map_of (peerConnections s) uid of None \<Rightarrow> [] | Some a \<Rightarrow> [PcClose a])"
  by (simp add: cleanupPeerConnection_def split: option.splits)

lemma cleanupPeerConnection_socket:
  "socket (fst (cleanupPeerConnection uid s)) = socket s"
  by (simp add: cleanupPeerConnection_def split: option.splits)








section \<open>The example managers, evaluated\<close>

lemmas run_defs = new_service_def and_then_def initialize_def on_connect_def
  joinDiscussion_def setupAudioContext_def startVoiceActivityDetection_def
  on_socket_def on_user_joined_def createPeerConnection_def cleanupPeerConnection_def
  new_pc_def is_initiator_def toggleMute_def mic_def vad_period_ms_def Let_def

lemma alice_service_eq:
  "alice_service =
     \<lparr>socket = Some \<lparr>sock_id = Some ''3kPz'', sock_token = ''tokenA'',
                     sock_userId = ''64f1c0'', sock_username = ''alice''\<rparr>,
      localStream = None, peerConnections = [], connected = True,
      discussionId = None, audioContext = None, audioAnalyser = None,
      users = [(''64f1c0'', \<lparr>userId = ''64f1c0'', username = ''alice'', stream = None,
                             audioTrack = None, isSpeaking = False\<rparr>)],
      onSpeakingChangeCallback = False, onUserJoinedCallback = False,
      onUserLeftCallback = False, onConnectedCallback = False, onErrorCallback = False,
      isMuted = False, microphoneAccessGranted = False,
      voiceActivityDetectionInterval = None,
      tracks = [], pcs = [], timers = [], next_timer = 0\<rparr>"
  by (simp add: alice_service_def run_defs)

lemma in_room_service_eq:
  "in_room_service =
     \<lparr>socket = Some \<lparr>sock_id = Some ''3kPz'', sock_token = ''tokenA'',
                     sock_userId = ''64f1c0'', sock_username = ''alice''\<rparr>,
      localStream = Some [0], peerConnections = [(''5Qa_'', 0)], connected = True,
      discussionId = Some ''d1'', audioContext = Some (), audioAnalyser = Some (),
      users = [(''64f1c0'', \<lparr>userId = ''64f1c0'', username = ''alice'', stream = None,
                             audioTrack = None, isSpeaking = False\<rparr>),
               (''5Qa_'', \<lparr>userId = ''5Qa_'', username = ''bob'', stream = None,
                           audioTrack = None, isSpeaking = False\<rparr>)],
      onSpeakingChangeCallback = False, onUserJoinedCallback = False,
      onUserLeftCallback = False, onConnectedCallback = False, onErrorCallback = False,
      isMuted = False, microphoneAccessGranted = True,
      voiceActivityDetectionInterval = Some 0,
      tracks = [\<lparr>enabled = True, ended = False\<rparr>],
      pcs = [\<lparr>pc_peer = ''5Qa_'', pc_closed = False, pc_senders = [0],
              pc_localDescription = Some Offer, pc_remoteDescription = None,
              pc_candidates = []\<rparr>],
      timers = [(0, False)], next_timer = 1\<rparr>"
  by (simp add: in_room_service_def alice_service_eq run_defs)

lemma muted_service_eq:
  "muted_service =
     in_room_service\<lparr>isMuted := True, tracks := [\<lparr>enabled = False, ended = False\<rparr>]\<rparr>"
  by (simp add: muted_service_def in_room_service_eq run_defs)


lemma loud_frame_speaking: "computeSpeaking loud_frame"
  by (simp add: computeSpeaking_code loud_frame_def)

section \<open>Mute\<close>

lemma set_enabled_length: "length (set_enabled b rs ts) = length ts"
  by (induction rs arbitrary: ts) auto

lemma map_update_same: "f y = f (ts ! r) \<Longrightarrow> map f (ts[r := y]) = map f ts"
  by (cases "r < length ts") (simp_all add: map_update list_update_same_conv list_update_beyond)

lemma set_enabled_ended: "map ended (set_enabled b rs ts) = map ended ts"
  by (induction rs arbitrary: ts) (auto simp: map_update_same)

lemma toggleMute_frame:
  "snd (toggleMute s) =
     s\<lparr>isMuted := \<not> isMuted s,
       tracks := (case localStream s of None \<Rightarrow> tracks s
                  | Some rs \<Rightarrow> set_enabled (isMuted s) rs (tracks s))\<rparr>"
  by (simp add: toggleMute_def Let_def split: option.splits)

lemma toggleMute_result: "fst (toggleMute s) = (\<not> isMuted s)"
  by (simp add: toggleMute_def Let_def split: option.splits)

lemma toggleMute_ended: "map ended (tracks (snd (toggleMute s))) = map ended (tracks s)"
  by (simp add: toggleMute_frame set_enabled_ended split: option.splits)

lemma setMute_result: "fst (setMute m s) = m \<and> isMuted (snd (setMute m s)) = m"
  by (auto simp: setMute_def toggleMute_result toggleMute_frame)

lemma setMute_links:
  "peerConnections (snd (setMute m s)) = peerConnections s \<and> pcs (snd (setMute m s)) = pcs s \<and>
   map ended (tracks (snd (setMute m s))) = map ended (tracks s)"
  using toggleMute_ended [of s] by (simp add: setMute_def toggleMute_frame)

text \<open>
  C7. A mute toggle (\<^verbatim>\<open>toggleMute\<close>, \<^verbatim>\<open>setMute\<close>) returns the resulting mute state and
  changes nothing but the mute flag and the enabled flag of the local tracks: the link
  map and every peer connection of the store are as before, no track is stopped, and no
  effect reaches the platform (nothing is closed, created or offered).
\<close>

theorem mute_keeps_links:
  "fst (toggleMute s) = isMuted (snd (toggleMute s)) \<and>
   fst (toggleMute s) = (\<not> isMuted s) \<and>
   snd (toggleMute s)\<lparr>isMuted := isMuted s, tracks := tracks s\<rparr> = s \<and>
   peerConnections (snd (toggleMute s)) = peerConnections s \<and>
   pcs (snd (toggleMute s)) = pcs s \<and>
   map ended (tracks (snd (toggleMute s))) = map ended (tracks s) \<and>
   fst (setMute m s) = isMuted (snd (setMute m s)) \<and>
   fst (setMute m s) = m \<and>
   snd (setMute m s)\<lparr>isMuted := isMuted s, tracks := tracks s\<rparr> = s \<and>
   peerConnections (snd (setMute m s)) = peerConnections s \<and>
   pcs (snd (setMute m s)) = pcs s \<and>
   map ended (tracks (snd (setMute m s))) = map ended (tracks s) \<and>
   snd (step ToggleMute s) = [] \<and> snd (step (SetMute m) s) = []"
proof -
  have a: "snd (toggleMute s)\<lparr>isMuted := isMuted s, tracks := tracks s\<rparr> = s"
    by (simp add: toggleMute_frame)
  have b: "snd (setMute m s)\<lparr>isMuted := isMuted s, tracks := tracks s\<rparr> = s"
    by (simp add: setMute_def toggleMute_frame)
  have c: "fst (toggleMute s) = isMuted (snd (toggleMute s))"
    by (simp add: toggleMute_result toggleMute_frame)
  show ?thesis
    using a b c toggleMute_result [of s] toggleMute_ended [of s] setMute_result [of m s]
      setMute_links [of m s]
    by (simp add: toggleMute_frame)
qed

section \<open>Ticks of the detector while muted\<close>

lemma vad_callback_muted: "isMuted s \<Longrightarrow> vad_callback prev frame s = (prev, s, [])"
  by (simp add: vad_callback_def split: option.splits)

lemma timers_update_same: "map_of (timers s) h = Some prev \<Longrightarrow> s\<lparr>timers := AList.update h prev (timers s)\<rparr> = s"
  by (simp add: update_triv)

text \<open>
  C3, as stated: while muted the frame is still read at every tick. In the room and
  unmuted, a tick reads the frame; after the mute toggle the same tick reads nothing.
\<close>

theorem muted_tick_reads_no_frame_counterexample:
  "isMuted muted_service \<and> map_of (timers muted_service) 0 = Some False \<and>
   GetByteFrequencyData \<in> set (snd (vad_tick 0 loud_frame in_room_service)) \<and>
   GetByteFrequencyData \<notin> set (snd (vad_tick 0 loud_frame muted_service))"
  by (simp add: muted_service_eq in_room_service_eq vad_tick_def vad_callback_def loud_frame_speaking)

text \<open>
  C3, amended: while muted, a tick of the timer returns at once: the frame is not read,
  no energy is computed, no speaking message is sent, no speaking-changed event is
  raised, and the state, with the last speaking state of the callback, stays as it is.
\<close>

theorem muted_tick_does_nothing:
  assumes "isMuted s"
  shows "vad_callback prev frame s = (prev, s, []) \<and> vad_tick h frame s = (s, [])"
  using assms
  by (simp add: vad_callback_muted vad_tick_def timers_update_same split: option.splits)

theorem muted_tick_does_nothing_witness:
  "isMuted muted_service \<and> vad_tick 0 loud_frame muted_service = (muted_service, [])"
  using muted_tick_does_nothing [of muted_service False loud_frame 0]
  by (simp add: muted_service_eq)

section \<open>Failures of joinDiscussion\<close>





section \<open>A failed join and the stored discussion\<close>

lemma leaveDiscussion_emits:
  "joined s d \<Longrightarrow> Emit (LeaveDiscussionMsg d) \<in> set (snd (leaveDiscussion s))"
  by (simp add: joined_def leaveDiscussion_def split: prod.splits)

text \<open>
  C10. When the microphone capture fails, \<^verbatim>\<open>joinDiscussion\<close> returns false with the
  requested identifier already stored (and nothing sent to the Coordinator, no stream
  kept): for a non-empty identifier a following \<^verbatim>\<open>leaveDiscussion\<close> is not a no-op and
  sends a leave notification for the discussion that was never joined.
\<close>

theorem failed_join_keeps_discussion_id:
  assumes "socket s \<noteq> None" and "connected s"
  shows "\<exists>s' e. joinDiscussion d GumRejected ctx s = Inr (False, s', e) \<and>
           discussionId s' = Some d \<and> localStream s' = localStream s \<and>
           Emit (JoinDiscussionMsg d) \<notin> set e \<and>
           (d \<noteq> [] \<longrightarrow> leaveDiscussion s' \<noteq> (s', []) \<and>
                      Emit (LeaveDiscussionMsg d) \<in> set (snd (leaveDiscussion s')))"
proof -
  let ?s' = "s\<lparr>discussionId := Some d\<rparr>"
  let ?e = "GetUserMedia # (if onErrorCallback s then [ErrorCb microphone_error] else [])"
  have j: "joinDiscussion d GumRejected ctx s = Inr (False, ?s', ?e)"
    using assms by (simp add: joinDiscussion_def Let_def)
  have l: "Emit (LeaveDiscussionMsg d) \<in> set (snd (leaveDiscussion ?s'))" if "d \<noteq> []"
    using that assms by (intro leaveDiscussion_emits) (simp add: joined_def)
  then have "leaveDiscussion ?s' \<noteq> (?s', [])" if "d \<noteq> []"
    using that by (metis empty_iff list.set(1) snd_conv)
  with j l show ?thesis by auto
qed

theorem failed_join_keeps_discussion_id_witness:
  "joinDiscussion ''d1'' GumRejected CtxOk alice_service =
     Inr (False, alice_service\<lparr>discussionId := Some ''d1''\<rparr>, [GetUserMedia]) \<and>
   discussionId alice_service = None \<and>
   snd (leaveDiscussion (alice_service\<lparr>discussionId := Some ''d1''\<rparr>)) =
     [Emit (LeaveDiscussionMsg ''d1'')]"
  using failed_join_keeps_discussion_id [of alice_service "''d1''" CtxOk]
  by (simp add: alice_service_eq joinDiscussion_def leaveDiscussion_def
      stopVoiceActivityDetection_def cleanupPeerConnections_def cleanupLocalStream_def)

section \<open>Joining while joined\<close>

lemma rejoined_service_eq:
  "rejoined_service =
     in_room_service\<lparr>discussionId := Some ''d2'', localStream := Some [1],
       tracks := [mic, mic], timers := [(0, False), (1, False)], next_timer := 2,
       voiceActivityDetectionInterval := Some 1\<rparr>"
  by (simp add: rejoined_service_def in_room_service_eq run_defs)

lemma rejoin_effects:
  "snd (step (JoinDiscussion ''d2'' (GumStream [mic]) CtxOk) in_room_service) =
     [GetUserMedia, Emit (JoinDiscussionMsg ''d2''), SetInterval 1 200]"
  by (simp add: in_room_service_eq run_defs)

text \<open>
  C2, as stated: joining \<open>d2\<close> while \<open>d1\<close> is joined first does what \<^verbatim>\<open>leaveDiscussion\<close>
  does. Alice, in \<open>d1\<close> with a link to Bob, joins \<open>d2\<close>: no leave notification for \<open>d1\<close>
  is sent, the link to Bob stays open, and the timer of the first join keeps running
  beside the new one.
\<close>

theorem join_while_joined_counterexample:
  "joined in_room_service ''d1'' \<and>
   joined rejoined_service ''d2'' \<and>
   Emit (LeaveDiscussionMsg ''d1'') \<notin>
     set (snd (step (JoinDiscussion ''d2'' (GumStream [mic]) CtxOk) in_room_service)) \<and>
   open_links in_room_service = [''5Qa_''] \<and>
   open_links rejoined_service = [''5Qa_''] \<and>
   map fst (timers rejoined_service) = [0, 1]"
  unfolding rejoin_effects
  by (simp add: rejoined_service_eq in_room_service_eq joined_def open_links_def)

lemma startVoiceActivityDetection_links:
  "peerConnections (fst (startVoiceActivityDetection s)) = peerConnections s \<and>
   pcs (fst (startVoiceActivityDetection s)) = pcs s \<and>
   discussionId (fst (startVoiceActivityDetection s)) = discussionId s"
  by (simp add: startVoiceActivityDetection_def split: option.splits)

lemma setupAudioContext_links:
  "peerConnections (setupAudioContext ctx s) = peerConnections s \<and>
   pcs (setupAudioContext ctx s) = pcs s \<and>
   discussionId (setupAudioContext ctx s) = discussionId s"
  by (simp add: setupAudioContext_def split: ctx_outcome.splits)

lemma startVoiceActivityDetection_no_leave:
  "Emit (LeaveDiscussionMsg d) \<notin> set (snd (startVoiceActivityDetection s)) \<and>
   PcClose a \<notin> set (snd (startVoiceActivityDetection s))"
  by (simp add: startVoiceActivityDetection_effects)

lemma joinDiscussion_frame:
  assumes "joinDiscussion d2 gum ctx s = Inr (ok, s', e)"
  shows "discussionId s' = Some d2 \<and> peerConnections s' = peerConnections s \<and> pcs s' = pcs s \<and>
         (\<forall>d. Emit (LeaveDiscussionMsg d) \<notin> set e) \<and> (\<forall>a. PcClose a \<notin> set e)"
proof (cases gum)
  case GumRejected
  with assms show ?thesis
    by (auto simp: joinDiscussion_def Let_def split: if_splits)
next
  case (GumStream ts)
  let ?s2 = "s\<lparr>discussionId := Some d2, tracks := tracks s @ ts, microphoneAccessGranted := True\<rparr>"
  let ?s4 = "setupAudioContext ctx ?s2
               \<lparr>localStream := Some [length (tracks s) ..< length (tracks s) + length ts]\<rparr>"
  have r: "Inr (ok, s', e) =
          (Inr (True, fst (startVoiceActivityDetection ?s4),
               [GetUserMedia, Emit (JoinDiscussionMsg d2)] @ snd (startVoiceActivityDetection ?s4))
           :: error + (bool \<times> audio_service \<times> effect list))"
    using assms unfolding GumStream
    by (cases "socket s = None \<or> \<not> connected s")
       (simp_all add: joinDiscussion_def Let_def case_prod_beta)
  then have s': "s' = fst (startVoiceActivityDetection ?s4)"
    and e: "e = [GetUserMedia, Emit (JoinDiscussionMsg d2)] @ snd (startVoiceActivityDetection ?s4)"
    by simp_all
  have s4: "discussionId ?s4 = Some d2 \<and> peerConnections ?s4 = peerConnections s \<and>
            pcs ?s4 = pcs s"
    by (simp add: setupAudioContext_links)
  show ?thesis
    unfolding s' e using s4
    by (simp add: startVoiceActivityDetection_links startVoiceActivityDetection_no_leave)
qed

text \<open>
  C2, amended: a manager stores one discussion identifier, and a \<^verbatim>\<open>joinDiscussion\<close>
  that returns replaces it by the requested one without performing a leave: it sends no
  leave notification and closes or removes no Peer Link.
\<close>

theorem join_replaces_discussion:
  assumes "joinDiscussion d2 gum ctx s = Inr (ok, s', e)"
  shows "discussionId s' = Some d2 \<and> peerConnections s' = peerConnections s \<and> pcs s' = pcs s \<and>
         (\<forall>d. Emit (LeaveDiscussionMsg d) \<notin> set e) \<and> (\<forall>a. PcClose a \<notin> set e)"
  using assms by (rule joinDiscussion_frame)

theorem join_replaces_discussion_witness:
  "joinDiscussion ''d2'' (GumStream [mic]) CtxOk in_room_service =
     Inr (True, rejoined_service, [GetUserMedia, Emit (JoinDiscussionMsg ''d2''), SetInterval 1 200]) \<and>
   discussionId in_room_service = Some ''d1'' \<and>
   discussionId rejoined_service = Some ''d2'' \<and>
   peerConnections rejoined_service = [(''5Qa_'', 0)]"
proof -
  have j: "joinDiscussion ''d2'' (GumStream [mic]) CtxOk in_room_service =
     Inr (True, rejoined_service, [GetUserMedia, Emit (JoinDiscussionMsg ''d2''), SetInterval 1 200])"
    by (simp add: rejoined_service_eq in_room_service_eq run_defs)
  show ?thesis
    using join_replaces_discussion [OF j] j by (simp add: in_room_service_eq)
qed

section \<open>Speaking events\<close>






lemma reports_timers [simp]:
  "sampling (s\<lparr>timers := t\<rparr>) = sampling s"
  "reports_to_coordinator (s\<lparr>timers := t\<rparr>) = reports_to_coordinator s"
  "reports_to_callback (s\<lparr>timers := t\<rparr>) = reports_to_callback s"
  by (simp_all add: sampling_def reports_to_coordinator_def reports_to_callback_def
      connection_id_def split: option.splits)







section \<open>One link per identity\<close>

subsection \<open>The link map and the store\<close>

lemma links_ok_empty: "links_ok [] []"
  by (simp add: links_ok_def)

lemma links_okD1: "links_ok m ps \<Longrightarrow> distinct (map fst m)"
  unfolding links_ok_def by blast

lemma links_okD2:
  "links_ok m ps \<Longrightarrow> map_of m u = Some a \<Longrightarrow>
   a < length ps \<and> \<not> pc_closed (ps ! a) \<and> pc_peer (ps ! a) = u"
  unfolding links_ok_def by blast

lemma links_okD3:
  "links_ok m ps \<Longrightarrow> a < length ps \<Longrightarrow> \<not> pc_closed (ps ! a) \<Longrightarrow>
   map_of m (pc_peer (ps ! a)) = Some a"
  unfolding links_ok_def by blast

lemma links_ok_close:
  assumes "links_ok m ps" and "map_of m uid = Some a"
  shows "links_ok (AList.delete uid m) (ps[a := (ps ! a)\<lparr>pc_closed := True\<rparr>])"
proof -
  have a: "a < length ps" "pc_peer (ps ! a) = uid"
    using links_okD2 [OF assms] by simp_all
  have other: "b \<noteq> a" if "map_of m u = Some b" "u \<noteq> uid" for u b
    using links_okD2 [OF assms(1) that(1)] that(2) a by auto
  let ?ps = "ps[a := (ps ! a)\<lparr>pc_closed := True\<rparr>]"
  have 1: "distinct (map fst (AList.delete uid m))"
    using links_okD1 [OF assms(1)] by (simp add: distinct_delete)
  have 2: "b < length ?ps \<and> \<not> pc_closed (?ps ! b) \<and> pc_peer (?ps ! b) = u"
    if "map_of (AList.delete uid m) u = Some b" for u b
  proof -
    note \<open>map_of (AList.delete uid m) u = Some b\<close>
    then have u: "u \<noteq> uid" "map_of m u = Some b"
      by (auto simp: delete_conv' split: if_splits)
    with other have "b \<noteq> a" by blast
    with links_okD2 [OF assms(1) u(2)] show ?thesis by simp
  qed
  have 3: "map_of (AList.delete uid m) (pc_peer (?ps ! b)) = Some b"
    if b: "b < length ?ps" "\<not> pc_closed (?ps ! b)" for b
  proof -
    from b have ba: "b \<noteq> a" using a by (auto simp: nth_list_update)
    with b have old: "b < length ps" "\<not> pc_closed (ps ! b)" by simp_all
    then have mb: "map_of m (pc_peer (ps ! b)) = Some b"
      by (rule links_okD3 [OF assms(1)])
    with assms(2) ba have "pc_peer (ps ! b) \<noteq> uid" by auto
    with mb ba show ?thesis by (simp add: delete_conv')
  qed
  from 1 2 3 show ?thesis unfolding links_ok_def by blast
qed

lemma links_ok_add:
  assumes "links_ok m ps" and "map_of m uid = None" and "pc_peer p = uid" and "\<not> pc_closed p"
  shows "links_ok (AList.update uid (length ps) m) (ps @ [p])"
proof -
  have 1: "distinct (map fst (AList.update uid (length ps) m))"
    using links_okD1 [OF assms(1)] by (rule distinct_update)
  have 2: "b < length (ps @ [p]) \<and> \<not> pc_closed ((ps @ [p]) ! b) \<and> pc_peer ((ps @ [p]) ! b) = u"
    if "map_of (AList.update uid (length ps) m) u = Some b" for u b
  proof -
    from that consider "u = uid" "b = length ps" | "u \<noteq> uid" "map_of m u = Some b"
    by (auto simp: update_conv' split: if_splits)
    then show ?thesis
    proof cases
      case 1
      with assms show ?thesis by simp
    next
      case 2
      from links_okD2 [OF assms(1) 2(2)] show ?thesis by (simp add: nth_append)
    qed
  qed
  have 3: "map_of (AList.update uid (length ps) m) (pc_peer ((ps @ [p]) ! b)) = Some b"
    if b: "b < length (ps @ [p])" "\<not> pc_closed ((ps @ [p]) ! b)" for b
  proof (cases "b < length ps")
    case True
    with b have "\<not> pc_closed (ps ! b)" by (simp add: nth_append)
    from links_okD3 [OF assms(1) True this] have mb: "map_of m (pc_peer (ps ! b)) = Some b" .
    with assms(2) have "pc_peer (ps ! b) \<noteq> uid" by auto
    with mb True show ?thesis by (simp add: update_conv' nth_append)
  next
    case False
    with b have "b = length ps" by simp
    with assms show ?thesis by (simp add: update_conv')
  qed
  from 1 2 3 show ?thesis unfolding links_ok_def by blast
qed

lemma links_ok_touch:
  assumes "links_ok m ps" and "pc_peer p = pc_peer (ps ! a)" and "pc_closed p = pc_closed (ps ! a)"
  shows "links_ok m (ps[a := p])"
proof -
  have "pc_peer (ps[a := p] ! b) = pc_peer (ps ! b) \<and> pc_closed (ps[a := p] ! b) = pc_closed (ps ! b)"
    if "b < length ps" for b
    using that assms(2,3) by (cases "b = a") simp_all
  with assms(1) show ?thesis
    unfolding links_ok_def by (metis length_list_update)
qed

lemma distinct_map_filter_nth:
  assumes "\<And>i j. i < length xs \<Longrightarrow> j < length xs \<Longrightarrow> P (xs ! i) \<Longrightarrow> P (xs ! j) \<Longrightarrow>
             f (xs ! i) = f (xs ! j) \<Longrightarrow> i = j"
  shows "distinct (map f (filter P xs))"
  using assms
proof (induction xs)
  case Nil
  then show ?case by simp
next
  case (Cons x xs)
  have tl: "distinct (map f (filter P xs))"
  proof (rule Cons.IH)
    fix i j
    assume "i < length xs" "j < length xs" "P (xs ! i)" "P (xs ! j)" "f (xs ! i) = f (xs ! j)"
    then have "Suc i = Suc j"
      by (intro Cons.prems) simp_all
    then show "i = j" by simp
  qed
  have hd: "f x \<notin> f ` set (filter P xs)" if "P x"
  proof
    assume "f x \<in> f ` set (filter P xs)"
    then obtain y where y: "y \<in> set xs" "P y" "f y = f x" by auto
    then obtain k where k: "k < length xs" "xs ! k = y" by (auto simp: in_set_conv_nth)
    have "0 = Suc k"
      by (rule Cons.prems) (use that y k in simp_all)
    then show False by simp
  qed
  show ?case using tl hd by simp
qed

lemma links_ok_open:
  assumes "links_ok m ps"
  shows "distinct (map pc_peer (filter (\<lambda>p. \<not> pc_closed p) ps)) \<and>
         set (map pc_peer (filter (\<lambda>p. \<not> pc_closed p) ps)) = set (map fst m)"
proof
  show "distinct (map pc_peer (filter (\<lambda>p. \<not> pc_closed p) ps))"
  proof (rule distinct_map_filter_nth)
    fix i j
    assume i: "i < length ps" and j: "j < length ps"
      and ci: "\<not> pc_closed (ps ! i)" and cj: "\<not> pc_closed (ps ! j)"
      and e: "pc_peer (ps ! i) = pc_peer (ps ! j)"
    have a: "map_of m (pc_peer (ps ! j)) = Some i"
      using links_okD3 [OF assms i ci] unfolding e .
    have b: "map_of m (pc_peer (ps ! j)) = Some j"
      by (rule links_okD3 [OF assms j cj])
    from a b show "i = j" by simp
  qed
next
  show "set (map pc_peer (filter (\<lambda>p. \<not> pc_closed p) ps)) = set (map fst m)"
  proof (intro equalityI subsetI)
    fix u
    assume "u \<in> set (map pc_peer (filter (\<lambda>p. \<not> pc_closed p) ps))"
    then obtain q where q: "q \<in> set ps" "\<not> pc_closed q" "pc_peer q = u"
      by auto
    from q(1) obtain k where k: "k < length ps" "ps ! k = q"
      unfolding in_set_conv_nth by blast
    from links_okD3 [OF assms k(1)] q k have "map_of m u = Some k" by simp
    then have "(u, k) \<in> set m" by (rule map_of_SomeD)
    then have "fst (u, k) \<in> fst ` set m" by (rule imageI)
    then show "u \<in> set (map fst m)" by simp
  next
    fix u
    assume "u \<in> set (map fst m)"
    then have "map_of m u \<noteq> None"
      by (simp add: map_of_eq_None_iff)
    then obtain a where a: "map_of m u = Some a" by blast
    from links_okD2 [OF assms a]
    have b: "a < length ps" "\<not> pc_closed (ps ! a)" "pc_peer (ps ! a) = u"
      by simp_all
    from b(1) have "ps ! a \<in> set ps" by (rule nth_mem)
    with b(2) have "ps ! a \<in> set (filter (\<lambda>p. \<not> pc_closed p) ps)" by simp
    then have "pc_peer (ps ! a) \<in> pc_peer ` set (filter (\<lambda>p. \<not> pc_closed p) ps)"
      by (rule imageI)
    with b(3) show "u \<in> set (map pc_peer (filter (\<lambda>p. \<not> pc_closed p) ps))" by simp
  qed
qed

subsection \<open>Every operation keeps the invariant\<close>

lemma links_inv_new: "links_inv new_service"
  by (simp add: links_inv_def new_service_def links_ok_empty)

lemma links_inv_frame:
  "peerConnections s' = peerConnections s \<Longrightarrow> pcs s' = pcs s \<Longrightarrow> links_inv s' = links_inv s"
  by (simp add: links_inv_def)

lemma cleanupPeerConnection_inv:
  "links_inv s \<Longrightarrow> links_inv (fst (cleanupPeerConnection uid s))"
  by (auto simp: links_inv_def cleanupPeerConnection_def links_ok_close split: option.splits)

lemma cleanupPeerConnection_gone:
  "map_of (peerConnections (fst (cleanupPeerConnection uid s))) uid = None"
  by (simp add: cleanupPeerConnection_def delete_conv' split: option.splits)

lemma createPeerConnection_state:
  "fst (createPeerConnection uid s) =
     (let s1 = fst (cleanupPeerConnection uid s);
          p = new_pc s1 uid;
          s2 = s1\<lparr>pcs := pcs s1 @ [p],
                  peerConnections := AList.update uid (length (pcs s1)) (peerConnections s1)\<rparr>
      in if is_initiator s2 uid
         then s2\<lparr>pcs := pcs s1 @ [p\<lparr>pc_localDescription := Some Offer\<rparr>]\<rparr>
         else s2)"
  by (simp add: createPeerConnection_def Let_def case_prod_beta)

lemma createPeerConnection_inv:
  assumes "links_inv s"
  shows "links_inv (fst (createPeerConnection uid s))"
proof -
  let ?s1 = "fst (cleanupPeerConnection uid s)"
  have ok: "links_ok (peerConnections ?s1) (pcs ?s1)"
    using cleanupPeerConnection_inv [OF assms] by (simp add: links_inv_def)
  have none: "map_of (peerConnections ?s1) uid = None"
    by (rule cleanupPeerConnection_gone)
  have "links_ok (AList.update uid (length (pcs ?s1)) (peerConnections ?s1)) (pcs ?s1 @ [p])"
    if "pc_peer p = uid" "\<not> pc_closed p" for p
    using ok none that by (rule links_ok_add)
  then show ?thesis
    by (simp add: createPeerConnection_state Let_def links_inv_def new_pc_def)
qed

lemma cleanup_keys_inv: "links_inv s \<Longrightarrow> links_inv (fst (cleanup_keys ks s))"
proof (induction ks arbitrary: s)
  case Nil
  then show ?case by simp
next
  case (Cons k ks)
  from Cons.IH [OF cleanupPeerConnection_inv [OF Cons.prems, of k]]
  show ?case by (simp add: and_then_def case_prod_beta)
qed

lemma cleanupPeerConnections_inv: "links_inv s \<Longrightarrow> links_inv (fst (cleanupPeerConnections s))"
  by (simp add: cleanupPeerConnections_def cleanup_keys_inv)

lemma stopVoiceActivityDetection_links:
  "peerConnections (fst (stopVoiceActivityDetection s)) = peerConnections s \<and>
   pcs (fst (stopVoiceActivityDetection s)) = pcs s"
  by (simp add: stopVoiceActivityDetection_def split: option.splits)

lemma cleanupLocalStream_links:
  "peerConnections (fst (cleanupLocalStream s)) = peerConnections s \<and>
   pcs (fst (cleanupLocalStream s)) = pcs s"
  by (simp add: cleanupLocalStream_def split: option.splits)

lemma leaveDiscussion_state:
  "fst (leaveDiscussion s) =
     (if joined s (the (discussionId s))
      then fst (cleanupLocalStream (fst (cleanupPeerConnections (fst (stopVoiceActivityDetection s)))))
             \<lparr>discussionId := None\<rparr>
      else s)"
  by (auto simp: leaveDiscussion_def joined_def case_prod_beta split: option.splits)

lemma leaveDiscussion_inv: "links_inv s \<Longrightarrow> links_inv (fst (leaveDiscussion s))"
proof -
  assume a: "links_inv s"
  let ?s1 = "fst (stopVoiceActivityDetection s)"
  let ?s2 = "fst (cleanupPeerConnections ?s1)"
  let ?s3 = "fst (cleanupLocalStream ?s2)"
  have "links_inv ?s1"
    using a links_inv_frame [of ?s1 s] by (simp add: stopVoiceActivityDetection_links)
  then have "links_inv ?s2" by (rule cleanupPeerConnections_inv)
  then have "links_inv ?s3"
    using links_inv_frame [of ?s3 ?s2] by (simp add: cleanupLocalStream_links)
  then have "links_inv (?s3\<lparr>discussionId := None\<rparr>)"
    by (simp add: links_inv_def)
  with a show ?thesis by (simp add: leaveDiscussion_state)
qed

lemma on_disconnect_inv: "links_inv s \<Longrightarrow> links_inv (fst (on_disconnect s))"
proof -
  assume "links_inv s"
  then have "links_inv (s\<lparr>connected := False\<rparr>)" by (simp add: links_inv_def)
  then show ?thesis unfolding on_disconnect_def by (rule cleanupPeerConnections_inv)
qed

lemma transport_closed_inv: "links_inv s \<Longrightarrow> links_inv (fst (transport_closed s))"
proof -
  assume a: "links_inv s"
  have "links_inv (fst (on_disconnect (s\<lparr>socket := x\<rparr>)))" for x
    by (rule on_disconnect_inv) (use a in \<open>simp add: links_inv_def\<close>)
  with a show ?thesis by (simp add: transport_closed_def split: option.splits)
qed

lemma socket_disconnect_inv: "links_inv s \<Longrightarrow> links_inv (fst (socket_disconnect s))"
  using transport_closed_inv [of s] by (simp add: socket_disconnect_def case_prod_beta)

lemma initialize_inv: "links_inv s \<Longrightarrow> links_inv (fst (initialize token uid uname s))"
  using socket_disconnect_inv [of s]
  by (simp add: initialize_def links_inv_def case_prod_beta)

lemma cleanup_inv: "links_inv s \<Longrightarrow> links_inv (fst (cleanup s))"
proof -
  assume "links_inv s"
  then have l: "links_inv (fst (leaveDiscussion s))" by (rule leaveDiscussion_inv)
  from socket_disconnect_inv [OF l] l show ?thesis
    by (simp add: cleanup_def links_inv_def case_prod_beta)
qed

lemma on_user_joined_inv: "links_inv s \<Longrightarrow> links_inv (fst (on_user_joined uid uname s))"
proof -
  assume "links_inv s"
  then have "links_inv (s\<lparr>users := x\<rparr>)" for x by (simp add: links_inv_def)
  from createPeerConnection_inv [OF this] show ?thesis
    by (simp add: on_user_joined_def Let_def case_prod_beta)
qed

lemma on_user_left_inv: "links_inv s \<Longrightarrow> links_inv (fst (on_user_left uid s))"
  using cleanupPeerConnection_inv [of s uid]
  by (simp add: on_user_left_def links_inv_def case_prod_beta)

lemma links_inv_touch:
  assumes "links_inv s" and "pc_peer p = pc_peer (pcs s ! a)" and "pc_closed p = pc_closed (pcs s ! a)"
  shows "links_inv (s\<lparr>pcs := (pcs s)[a := p]\<rparr>)"
  using assms by (simp add: links_inv_def links_ok_touch)

lemma on_offer_state:
  "fst (on_offer sender s) =
     (let s1 = (if map_of (peerConnections s) sender = None
                then fst (createPeerConnection sender s) else s)
      in case map_of (peerConnections s1) sender of
           None \<Rightarrow> s1
         | Some a \<Rightarrow>
             s1\<lparr>pcs := (pcs s1)[a := (pcs s1 ! a)\<lparr>pc_remoteDescription := Some Offer,
                                                 pc_localDescription := Some Answer\<rparr>]\<rparr>)"
  by (simp add: on_offer_def Let_def case_prod_beta split: option.splits)

lemma on_offer_inv:
  assumes "links_inv s"
  shows "links_inv (fst (on_offer sender s))"
proof -
  define s1 where "s1 = (if map_of (peerConnections s) sender = None
                         then fst (createPeerConnection sender s) else s)"
  have s1: "links_inv s1"
    using assms createPeerConnection_inv [OF assms, of sender] by (simp add: s1_def)
  have "links_inv (s1\<lparr>pcs := (pcs s1)[b := (pcs s1 ! b)\<lparr>pc_remoteDescription := Some Offer,
                                   pc_localDescription := Some Answer\<rparr>]\<rparr>)" for b
    by (rule links_inv_touch [OF s1]) simp_all
  with s1 show ?thesis
    unfolding on_offer_state s1_def [symmetric] by (simp add: Let_def split: option.splits)
qed

lemma on_answer_inv: "links_inv s \<Longrightarrow> links_inv (fst (on_answer sender s))"
  by (auto simp: on_answer_def links_inv_touch split: option.splits)

lemma on_ice_candidate_inv: "links_inv s \<Longrightarrow> links_inv (fst (on_ice_candidate sender c s))"
  by (auto simp: on_ice_candidate_def links_inv_touch split: option.splits)

lemma joinDiscussion_inv:
  "links_inv s \<Longrightarrow> links_inv (fst (step (JoinDiscussion d gum ctx) s))"
proof (cases "joinDiscussion d gum ctx s")
  case (Inl e)
  then show "links_inv s \<Longrightarrow> ?thesis" by simp
next
  case (Inr r)
  obtain ok s' e where r: "r = (ok, s', e)" by (cases r)
  assume "links_inv s"
  with joinDiscussion_frame [OF Inr [unfolded r]] show ?thesis
    using Inr r by (simp add: links_inv_def)
qed

lemma vad_callback_links:
  "peerConnections (fst (snd (vad_callback prev frame s))) = peerConnections s \<and>
   pcs (fst (snd (vad_callback prev frame s))) = pcs s"
  by (simp add: vad_callback_def Let_def split: option.splits)

lemma vad_tick_inv: "links_inv s \<Longrightarrow> links_inv (fst (vad_tick h frame s))"
  using vad_callback_links
  by (simp add: vad_tick_def links_inv_def case_prod_beta split: option.splits)

lemma on_socket_inv:
  "(\<And>s. links_inv s \<Longrightarrow> links_inv (fst (f s))) \<Longrightarrow> links_inv s \<Longrightarrow> links_inv (fst (on_socket f s))"
  by (simp add: on_socket_def)

lemma step_inv: "links_inv s \<Longrightarrow> links_inv (fst (step ev s))"
proof (cases ev)
  case (Initialize token uid uname)
  then show "links_inv s \<Longrightarrow> ?thesis" by (simp add: initialize_inv)
next
  case (Register k)
  then show "links_inv s \<Longrightarrow> ?thesis"
    by (simp add: register_def links_inv_def split: callback_kind.splits)
next
  case (SockConnect sid)
  then show "links_inv s \<Longrightarrow> ?thesis"
    by (simp add: on_connect_def links_inv_def split: option.splits)
next
  case SockDisconnect
  then show "links_inv s \<Longrightarrow> ?thesis" by (simp add: transport_closed_inv)
next
  case (SockUserJoined uid uname)
  then show "links_inv s \<Longrightarrow> ?thesis" by (simp add: on_socket_inv on_user_joined_inv)
next
  case (SockUserLeft uid)
  then show "links_inv s \<Longrightarrow> ?thesis" by (simp add: on_socket_inv on_user_left_inv)
next
  case (SockOffer sender)
  then show "links_inv s \<Longrightarrow> ?thesis" by (simp add: on_socket_inv on_offer_inv)
next
  case (SockAnswer sender)
  then show "links_inv s \<Longrightarrow> ?thesis" by (simp add: on_socket_inv on_answer_inv)
next
  case (SockIceCandidate sender c)
  then show "links_inv s \<Longrightarrow> ?thesis" by (simp add: on_socket_inv on_ice_candidate_inv)
next
  case (SockSpeaking uid b)
  then show "links_inv s \<Longrightarrow> ?thesis"
    by (simp add: on_socket_def on_speaking_def links_inv_def split: option.splits)
next
  case (SockError msg)
  then show "links_inv s \<Longrightarrow> ?thesis"
    by (simp add: on_socket_def on_error_def)
next
  case (PcTrack a st tr)
  then show "links_inv s \<Longrightarrow> ?thesis"
    by (simp add: on_pc_def pc_ontrack_def links_inv_def split: option.splits)
next
  case (PcIceCandidate a cand)
  then show "links_inv s \<Longrightarrow> ?thesis"
    by (simp add: on_pc_def pc_onicecandidate_def split: option.splits)
next
  case (JoinDiscussion d gum ctx)
  then show "links_inv s \<Longrightarrow> ?thesis" using joinDiscussion_inv by simp
next
  case LeaveDiscussion
  then show "links_inv s \<Longrightarrow> ?thesis" by (simp add: leaveDiscussion_inv)
next
  case ToggleMute
  then show "links_inv s \<Longrightarrow> ?thesis" by (simp add: toggleMute_frame links_inv_def)
next
  case (SetMute b)
  then show "links_inv s \<Longrightarrow> ?thesis" using setMute_links [of b s] by (simp add: links_inv_def)
next
  case Cleanup
  then show "links_inv s \<Longrightarrow> ?thesis" by (simp add: cleanup_inv)
next
  case (TimerTick h frame)
  then show "links_inv s \<Longrightarrow> ?thesis" by (simp add: vad_tick_inv)
qed

lemma run_inv: "links_inv s \<Longrightarrow> links_inv (fst (run evs s))"
proof (induction evs arbitrary: s)
  case Nil
  then show ?case by simp
next
  case (Cons ev evs)
  from Cons.IH [OF step_inv [OF Cons.prems, of ev]]
  show ?case by (simp add: and_then_def case_prod_beta)
qed

lemma reachable_links_inv: "links_inv (fst (run evs new_service))"
  by (rule run_inv [OF links_inv_new])

lemma links_inv_open:
  assumes "links_inv s"
  shows "distinct (map fst (peerConnections s)) \<and> distinct (open_links s) \<and>
         set (open_links s) = set (map fst (peerConnections s))"
  using links_ok_open [of "peerConnections s" "pcs s"] links_okD1 [of "peerConnections s" "pcs s"]
    assms
  by (simp add: links_inv_def open_links_def)

lemma createPeerConnection_effects:
  "snd (createPeerConnection uid s) =
     snd (cleanupPeerConnection uid s) @ (if is_initiator s uid then [Emit (OfferMsg uid)] else [])"
  using cleanupPeerConnection_socket [of uid s]
  by (simp add: createPeerConnection_def Let_def case_prod_beta is_initiator_def)

lemma createPeerConnection_replaces:
  assumes "links_inv s" and "map_of (peerConnections s) uid = Some a"
  shows "PcClose a \<in> set (snd (createPeerConnection uid s)) \<and>
         pc_closed (pcs (fst (createPeerConnection uid s)) ! a) \<and>
         map_of (peerConnections (fst (createPeerConnection uid s))) uid = Some (length (pcs s)) \<and>
         \<not> pc_closed (pcs (fst (createPeerConnection uid s)) ! length (pcs s))"
proof -
  have a: "a < length (pcs s)"
    using links_okD2 [of "peerConnections s" "pcs s" uid a] assms by (simp add: links_inv_def)
  have s1: "fst (cleanupPeerConnection uid s) =
          s\<lparr>pcs := (pcs s)[a := (pcs s ! a)\<lparr>pc_closed := True\<rparr>],
            peerConnections := AList.delete uid (peerConnections s)\<rparr>"
    using assms(2) by (simp add: cleanupPeerConnection_def)
  have e: "PcClose a \<in> set (snd (createPeerConnection uid s))"
    using assms(2) by (simp add: createPeerConnection_effects cleanupPeerConnection_effects)
  show ?thesis
    using a e
    by (simp add: createPeerConnection_state s1 Let_def update_conv' nth_append new_pc_def)
qed

lemma in_room_events_run: "fst (run in_room_events new_service) = in_room_service"
  by (simp add: in_room_events_def in_room_service_def alice_service_def and_then_def case_prod_beta)

text \<open>
  C9. In every state a manager can reach, the link map has one entry per identity and
  the open peer connections are exactly the entries of the map, one per identity; and
  \<^verbatim>\<open>createPeerConnection\<close> for an identity that has a link closes that connection,
  removes it and registers a fresh open one in its place.
\<close>

theorem one_link_per_identity:
  assumes "s = fst (run evs new_service)"
  shows "distinct (map fst (peerConnections s)) \<and>
         distinct (open_links s) \<and>
         set (open_links s) = set (map fst (peerConnections s)) \<and>
         (\<forall>uid a. map_of (peerConnections s) uid = Some a \<longrightarrow>
            PcClose a \<in> set (snd (createPeerConnection uid s)) \<and>
            pc_closed (pcs (fst (createPeerConnection uid s)) ! a) \<and>
            map_of (peerConnections (fst (createPeerConnection uid s))) uid = Some (length (pcs s)) \<and>
            \<not> pc_closed (pcs (fst (createPeerConnection uid s)) ! length (pcs s)))"
proof -
  have inv: "links_inv s"
    unfolding assms by (rule reachable_links_inv)
  from links_inv_open [OF inv] createPeerConnection_replaces [OF inv]
  show ?thesis by blast
qed

theorem one_link_per_identity_witness:
  "in_room_service = fst (run in_room_events new_service) \<and>
   map_of (peerConnections in_room_service) ''5Qa_'' = Some 0 \<and>
   open_links in_room_service = [''5Qa_''] \<and>
   PcClose 0 \<in> set (snd (createPeerConnection ''5Qa_'' in_room_service)) \<and>
   open_links (fst (createPeerConnection ''5Qa_'' in_room_service)) = [''5Qa_''] \<and>
   peerConnections (fst (createPeerConnection ''5Qa_'' in_room_service)) = [(''5Qa_'', 1)]"
  using one_link_per_identity [of in_room_service in_room_events]
  by (simp add: in_room_events_run in_room_service_eq open_links_def createPeerConnection_def
      cleanupPeerConnection_def new_pc_def is_initiator_def Let_def)

section \<open>Leaving\<close>

lemma stopVoiceActivityDetection_cases:
  "stopVoiceActivityDetection s =
     (case voiceActivityDetectionInterval s of
        None \<Rightarrow> (s, [])
      | Some h \<Rightarrow> (s\<lparr>timers := AList.delete h (timers s),
                      voiceActivityDetectionInterval := None\<rparr>, [ClearInterval h]))"
  by (simp add: stopVoiceActivityDetection_def)



lemma cleanupPeerConnection_frame:
  "\<exists>p m. fst (cleanupPeerConnection k s) = s\<lparr>pcs := p, peerConnections := m\<rparr>"
proof (cases "map_of (peerConnections s) k")
  case None
  then have "fst (cleanupPeerConnection k s) = s\<lparr>pcs := pcs s, peerConnections := peerConnections s\<rparr>"
    by (simp add: cleanupPeerConnection_def)
  then show ?thesis by blast
next
  case (Some a)
  then have "fst (cleanupPeerConnection k s) =
      s\<lparr>pcs := (pcs s)[a := (pcs s ! a)\<lparr>pc_closed := True\<rparr>],
        peerConnections := AList.delete k (peerConnections s)\<rparr>"
    by (simp add: cleanupPeerConnection_def)
  then show ?thesis by blast
qed


lemma cleanup_keys_frame:
  "\<exists>p m. fst (cleanup_keys ks s) = s\<lparr>pcs := p, peerConnections := m\<rparr>"
proof (induction ks arbitrary: s)
  case Nil
  have "fst (cleanup_keys [] s) = s\<lparr>pcs := pcs s, peerConnections := peerConnections s\<rparr>"
    by simp
  then show ?case by blast
next
  case (Cons k ks)
  obtain p m where 1: "fst (cleanupPeerConnection k s) = s\<lparr>pcs := p, peerConnections := m\<rparr>"
    using cleanupPeerConnection_frame by blast
  obtain p' m' where 2: "fst (cleanup_keys ks (fst (cleanupPeerConnection k s))) =
      fst (cleanupPeerConnection k s)\<lparr>pcs := p', peerConnections := m'\<rparr>"
    using Cons.IH by blast
  have "fst (cleanup_keys (k # ks) s) = s\<lparr>pcs := p', peerConnections := m'\<rparr>"
    by (simp add: and_then_def case_prod_beta 2) (simp add: 1)
  then show ?case by blast
qed






lemma stop_tracks_length: "length (stop_tracks rs ts) = length ts"
  by (induction rs arbitrary: ts) simp_all




lemma cleanupLocalStream_cases:
  "cleanupLocalStream s =
     (s\<lparr>tracks := (case localStream s of None \<Rightarrow> tracks s | Some rs \<Rightarrow> stop_tracks rs (tracks s)),
        localStream := None, audioContext := None,
        audioAnalyser := (if audioContext s = None then audioAnalyser s else None)\<rparr>,
      (case localStream s of None \<Rightarrow> [] | Some rs \<Rightarrow> map TrackStop rs) @
      (if audioContext s = None then [] else [AudioContextClose]))"
  by (cases "localStream s"; cases "audioContext s") (simp_all add: cleanupLocalStream_def)

subsection \<open>The audio graph\<close>

lemma audio_inv_frame:
  "audioContext s' = audioContext s \<Longrightarrow> audioAnalyser s' = audioAnalyser s \<Longrightarrow>
   audio_inv s' = audio_inv s"
  by (simp add: audio_inv_def)

lemma audio_inv_new: "audio_inv new_service"
  by (simp add: audio_inv_def new_service_def)

lemma cleanup_keys_audio: "audio_inv (fst (cleanup_keys ks s)) = audio_inv s"
proof -
  obtain p m where "fst (cleanup_keys ks s) = s\<lparr>pcs := p, peerConnections := m\<rparr>"
    using cleanup_keys_frame by blast
  then show ?thesis by (simp add: audio_inv_def)
qed

lemma cleanupPeerConnection_audio: "audio_inv (fst (cleanupPeerConnection k s)) = audio_inv s"
proof -
  obtain p m where "fst (cleanupPeerConnection k s) = s\<lparr>pcs := p, peerConnections := m\<rparr>"
    using cleanupPeerConnection_frame by blast
  then show ?thesis by (simp add: audio_inv_def)
qed

lemma cleanupPeerConnections_audio: "audio_inv (fst (cleanupPeerConnections s)) = audio_inv s"
  by (simp add: cleanupPeerConnections_def cleanup_keys_audio)

lemma createPeerConnection_audio: "audio_inv (fst (createPeerConnection uid s)) = audio_inv s"
  using cleanupPeerConnection_audio [of uid s]
  by (simp add: createPeerConnection_state Let_def audio_inv_def)

lemma stopVoiceActivityDetection_audio:
  "audio_inv (fst (stopVoiceActivityDetection s)) = audio_inv s"
  by (simp add: stopVoiceActivityDetection_def audio_inv_def split: option.splits)

lemma cleanupLocalStream_audio:
  "audio_inv s \<Longrightarrow> audioAnalyser (fst (cleanupLocalStream s)) = None"
  by (auto simp: cleanupLocalStream_cases audio_inv_def)

lemma leaveDiscussion_audio: "audio_inv s \<Longrightarrow> audio_inv (fst (leaveDiscussion s))"
proof -
  assume a: "audio_inv s"
  let ?s2 = "fst (cleanupPeerConnections (fst (stopVoiceActivityDetection s)))"
  have "audio_inv ?s2"
    using a by (simp add: cleanupPeerConnections_audio stopVoiceActivityDetection_audio)
  then have "audioAnalyser (fst (cleanupLocalStream ?s2)) = None"
    by (rule cleanupLocalStream_audio)
  with a show ?thesis
    by (simp add: leaveDiscussion_state audio_inv_def)
qed

lemma transport_closed_audio: "audio_inv (fst (transport_closed s)) = audio_inv s"
proof -
  have "audio_inv (fst (cleanupPeerConnections (s\<lparr>socket := x, connected := False\<rparr>))) = audio_inv s"
    for x
    by (simp add: cleanupPeerConnections_audio) (simp add: audio_inv_def)
  then show ?thesis
    by (simp add: transport_closed_def on_disconnect_def split: option.splits)
qed

lemma socket_disconnect_audio: "audio_inv (fst (socket_disconnect s)) = audio_inv s"
  by (simp add: socket_disconnect_def case_prod_beta transport_closed_audio)

lemma initialize_audio: "audio_inv (fst (initialize token uid uname s)) = audio_inv s"
  using socket_disconnect_audio [of s]
  by (simp add: initialize_def case_prod_beta audio_inv_def)

lemma cleanup_audio: "audio_inv s \<Longrightarrow> audio_inv (fst (cleanup s))"
  using socket_disconnect_audio [of "fst (leaveDiscussion s)"] leaveDiscussion_audio [of s]
  by (simp add: cleanup_def case_prod_beta audio_inv_def)

lemma on_user_joined_audio: "audio_inv (fst (on_user_joined uid uname s)) = audio_inv s"
  by (simp add: on_user_joined_def Let_def case_prod_beta createPeerConnection_audio)
     (simp add: audio_inv_def)

lemma on_user_left_audio: "audio_inv (fst (on_user_left uid s)) = audio_inv s"
  using cleanupPeerConnection_audio [of uid s]
  by (simp add: on_user_left_def case_prod_beta audio_inv_def)

lemma on_offer_audio: "audio_inv (fst (on_offer sender s)) = audio_inv s"
  using createPeerConnection_audio [of sender s]
  by (simp add: on_offer_state Let_def audio_inv_def split: option.splits)

lemma setupAudioContext_audio: "audio_inv s \<Longrightarrow> audio_inv (setupAudioContext ctx s)"
  by (cases ctx) (simp_all add: setupAudioContext_def audio_inv_def)

lemma startVoiceActivityDetection_audio:
  "audio_inv (fst (startVoiceActivityDetection s)) = audio_inv s"
  by (simp add: startVoiceActivityDetection_def audio_inv_def split: option.splits)

lemma joinDiscussion_audio:
  "audio_inv s \<Longrightarrow> audio_inv (fst (step (JoinDiscussion d gum ctx) s))"
proof (cases gum)
  case GumRejected
  then show "audio_inv s \<Longrightarrow> ?thesis"
    by (simp add: joinDiscussion_def Let_def audio_inv_def)
next
  case (GumStream ts)
  assume a: "audio_inv s"
  let ?s2 = "s\<lparr>discussionId := Some d, tracks := tracks s @ ts, microphoneAccessGranted := True\<rparr>"
  let ?s4 = "setupAudioContext ctx ?s2
               \<lparr>localStream := Some [length (tracks s) ..< length (tracks s) + length ts]\<rparr>"
  have "audio_inv ?s2" using a by (simp add: audio_inv_def)
  then have "audio_inv (setupAudioContext ctx ?s2)" by (rule setupAudioContext_audio)
  then have "audio_inv ?s4" by (simp add: audio_inv_def)
  then have "audio_inv (fst (startVoiceActivityDetection ?s4))"
    by (simp only: startVoiceActivityDetection_audio)
  with a show ?thesis
    unfolding GumStream
    by (cases "socket s = None \<or> \<not> connected s")
       (simp_all add: joinDiscussion_def Let_def case_prod_beta)
qed

lemma vad_tick_audio: "audio_inv (fst (vad_tick h frame s)) = audio_inv s"
  by (simp add: vad_tick_def vad_callback_def Let_def audio_inv_def case_prod_beta
      split: option.splits)

lemma step_audio: "audio_inv s \<Longrightarrow> audio_inv (fst (step ev s))"
proof (cases ev)
  case (Initialize token uid uname)
  then show "audio_inv s \<Longrightarrow> ?thesis" by (simp add: initialize_audio)
next
  case (Register k)
  then show "audio_inv s \<Longrightarrow> ?thesis"
    by (simp add: register_def audio_inv_def split: callback_kind.splits)
next
  case (SockConnect sid)
  then show "audio_inv s \<Longrightarrow> ?thesis"
    by (simp add: on_connect_def audio_inv_def split: option.splits)
next
  case SockDisconnect
  then show "audio_inv s \<Longrightarrow> ?thesis" by (simp add: transport_closed_audio)
next
  case (SockUserJoined uid uname)
  then show "audio_inv s \<Longrightarrow> ?thesis" by (simp add: on_socket_def on_user_joined_audio)
next
  case (SockUserLeft uid)
  then show "audio_inv s \<Longrightarrow> ?thesis" by (simp add: on_socket_def on_user_left_audio)
next
  case (SockOffer sender)
  then show "audio_inv s \<Longrightarrow> ?thesis" by (simp add: on_socket_def on_offer_audio)
next
  case (SockAnswer sender)
  then show "audio_inv s \<Longrightarrow> ?thesis"
    by (simp add: on_socket_def on_answer_def audio_inv_def split: option.splits)
next
  case (SockIceCandidate sender c)
  then show "audio_inv s \<Longrightarrow> ?thesis"
    by (simp add: on_socket_def on_ice_candidate_def audio_inv_def split: option.splits)
next
  case (SockSpeaking uid b)
  then show "audio_inv s \<Longrightarrow> ?thesis"
    by (simp add: on_socket_def on_speaking_def audio_inv_def split: option.splits)
next
  case (SockError msg)
  then show "audio_inv s \<Longrightarrow> ?thesis" by (simp add: on_socket_def on_error_def)
next
  case (PcTrack a st tr)
  then show "audio_inv s \<Longrightarrow> ?thesis"
    by (simp add: on_pc_def pc_ontrack_def audio_inv_def split: option.splits)
next
  case (PcIceCandidate a cand)
  then show "audio_inv s \<Longrightarrow> ?thesis"
    by (simp add: on_pc_def pc_onicecandidate_def split: option.splits)
next
  case (JoinDiscussion d gum ctx)
  then show "audio_inv s \<Longrightarrow> ?thesis" using joinDiscussion_audio by simp
next
  case LeaveDiscussion
  then show "audio_inv s \<Longrightarrow> ?thesis" by (simp add: leaveDiscussion_audio)
next
  case ToggleMute
  then show "audio_inv s \<Longrightarrow> ?thesis" by (simp add: toggleMute_frame audio_inv_def)
next
  case (SetMute b)
  then show "audio_inv s \<Longrightarrow> ?thesis"
    by (simp add: setMute_def toggleMute_frame audio_inv_def)
next
  case Cleanup
  then show "audio_inv s \<Longrightarrow> ?thesis" by (simp add: cleanup_audio)
next
  case (TimerTick h frame)
  then show "audio_inv s \<Longrightarrow> ?thesis" by (simp add: vad_tick_audio)
qed

lemma run_audio: "audio_inv s \<Longrightarrow> audio_inv (fst (run evs s))"
proof (induction evs arbitrary: s)
  case Nil
  then show ?case by simp
next
  case (Cons ev evs)
  from Cons.IH [OF step_audio [OF Cons.prems, of ev]]
  show ?case by (simp add: and_then_def case_prod_beta)
qed

lemma reachable_audio_inv: "audio_inv (fst (run evs new_service))"
  by (rule run_audio [OF audio_inv_new])

subsection \<open>What leaveDiscussion does\<close>





lemma in_room_leave:
  "leaveDiscussion in_room_service =
     (in_room_service\<lparr>discussionId := None, localStream := None, peerConnections := [],
        audioContext := None, audioAnalyser := None, voiceActivityDetectionInterval := None,
        timers := [], tracks := [\<lparr>enabled = True, ended = True\<rparr>],
        pcs := [\<lparr>pc_peer = ''5Qa_'', pc_closed = True, pc_senders = [0],
                 pc_localDescription = Some Offer, pc_remoteDescription = None,
                 pc_candidates = []\<rparr>]\<rparr>,
      [ClearInterval 0, Emit (LeaveDiscussionMsg ''d1''), PcClose 0, TrackStop 0,
       AudioContextClose])"
  by (simp add: in_room_service_eq leaveDiscussion_def stopVoiceActivityDetection_def
      cleanupPeerConnections_def and_then_def cleanupPeerConnection_def cleanupLocalStream_def)



end
